theory Spec2Isabelle
  imports Complex_Main "HOL-Library.Multiset" "HOL-Library.Char_ord"
    "HOL-Library.List_Lexorder" "HOL-Library.Product_Lexorder"
begin

section \<open>Values and tables\<close>

text \<open>
  The program \<^verbatim>\<open>portfolio_analytics.py\<close> works on pandas tables. A numeric cell is a
  binary floating-point number. It is modelled by \<open>fval\<close>: an exact real, one of the two
  infinities, or the missing value NaN. Rounding is not modelled: a finite result is the
  exact real result.
\<close>

datatype fval = Fin real | PInf | NInf | NaN

text \<open>
  A column carries a dtype. An \<open>object\<close> column read from a CSV file holds text cells and
  missing cells; the other dtypes are numeric, boolean and (after date parsing) dates.
  The type of dates is a parameter \<open>'d\<close>.
\<close>

datatype 'd column =
    ObjCol "string option list"
  | NumCol "fval list"
  | BoolCol "bool list"
  | DateCol "'d option list"

text \<open>
  A table is the list of its labelled columns, in order. Labels may repeat: renaming can
  give two columns the same label.
\<close>

type_synonym 'd table = "(string \<times> 'd column) list"

datatype error =
    FileNotFoundError
  | PermissionError
  | IsADirectoryError
  | ParserError
  | AttributeError
  | ValueError
  | TypeError
  | DateParseError
  | OutOfBoundsDatetime

datatype errors_mode = Raise | Coerce

section \<open>Column-name standardization\<close>

text \<open>The dictionary \<^verbatim>\<open>column_map\<close> of \<^verbatim>\<open>load_and_clean_data\<close>, in source order.\<close>

definition column_map :: "(string \<times> string) list" where
  "column_map =
    [(''Datum'', ''Date''), (''Date'', ''Date''),
     (''Tijd'', ''Time''), (''Time'', ''Time''),
     (''Product'', ''Product''),
     (''ISIN'', ''ISIN''),
     (''Aantal'', ''Quantity''), (''Quantity'', ''Quantity''),
     (''Koers'', ''Price''), (''Price'', ''Price''),
     (''Lokale waarde'', ''Local Value''), (''Local value'', ''Local Value''),
     (''Waarde'', ''Value''), (''Value'', ''Value''),
     (''Totaal'', ''Total''), (''Total'', ''Total'')]"

text \<open>
  \<^verbatim>\<open>df.rename(columns=m)\<close>: a label that is a key of \<open>m\<close> is replaced by its value, any
  other label is kept; the columns and their order stay as they are.
\<close>

definition relabel :: "(string \<times> string) list \<Rightarrow> string \<Rightarrow> string" where
  "relabel m l = (case map_of m l of Some l' \<Rightarrow> l' | None \<Rightarrow> l)"

definition rename_columns :: "(string \<times> string) list \<Rightarrow> 'd table \<Rightarrow> 'd table" where
  "rename_columns m df = map (\<lambda>(l, c). (relabel m l, c)) df"

section \<open>Numeric normalization\<close>

text \<open>\<^verbatim>\<open>astype(str)\<close> on an object column: a missing cell becomes the text \<^verbatim>\<open>nan\<close>.\<close>

definition astype_str :: "string option \<Rightarrow> string" where
  "astype_str c = (case c of None \<Rightarrow> ''nan'' | Some s \<Rightarrow> s)"

text \<open>
  \<^verbatim>\<open>str.replace(old, new, regex=False)\<close> for a one-character \<open>old\<close>: every occurrence
  is replaced.
\<close>

definition str_replace :: "char \<Rightarrow> string \<Rightarrow> string \<Rightarrow> string" where
  "str_replace old new s = concat (map (\<lambda>c. if c = old then new else [c]) s)"

text \<open>
  The number parser behind \<^verbatim>\<open>pd.to_numeric\<close> on a text cell: optional blanks, an
  optional sign, decimal digits with an optional point (at least one digit in all), an
  optional exponent (\<^verbatim>\<open>e\<close> or \<^verbatim>\<open>E\<close>, optional sign, at least one digit), optional blanks,
  and nothing else. When that fails, the words \<^verbatim>\<open>inf\<close> and \<^verbatim>\<open>infinity\<close>, in any case and
  with an optional sign, are the infinities.
\<close>

definition is_space :: "char \<Rightarrow> bool" where
  "is_space c = (c \<in> set [CHR '' '', CHR 0x09, CHR 0x0A, CHR 0x0B, CHR 0x0C, CHR 0x0D])"

definition is_digit :: "char \<Rightarrow> bool" where
  "is_digit c = (c \<in> set ''0123456789'')"

definition digit_val :: "char \<Rightarrow> nat" where
  "digit_val c = of_char c - 48"

definition digits_val :: "string \<Rightarrow> nat" where
  "digits_val ds = foldl (\<lambda>n c. 10 * n + digit_val c) 0 ds"

definition take_sign :: "string \<Rightarrow> bool \<times> string" where
  "take_sign s =
    (case s of
       [] \<Rightarrow> (False, s)
     | c # r \<Rightarrow> if c = CHR ''-'' then (True, r) else if c = CHR ''+'' then (False, r) else (False, s))"

definition take_exponent :: "string \<Rightarrow> int \<times> string" where
  "take_exponent s =
    (case s of
       [] \<Rightarrow> (0, s)
     | c # r \<Rightarrow>
        if c = CHR ''e'' \<or> c = CHR ''E'' then
          (let (neg, r1) = take_sign r;
               ds = takeWhile is_digit r1
           in if ds = [] then (0, s)
              else ((if neg then - int (digits_val ds) else int (digits_val ds)),
                    dropWhile is_digit r1))
        else (0, s))"

definition scale10 :: "real \<Rightarrow> int \<Rightarrow> real" where
  "scale10 x e = (if 0 \<le> e then x * 10 ^ nat e else x / 10 ^ nat (- e))"

definition parse_decimal :: "string \<Rightarrow> real option" where
  "parse_decimal s =
    (let s1 = dropWhile is_space s;
         (neg, s2) = take_sign s1;
         ip = takeWhile is_digit s2;
         s3 = dropWhile is_digit s2;
         has_point = (s3 \<noteq> [] \<and> hd s3 = CHR ''.'');
         fp = (if has_point then takeWhile is_digit (tl s3) else []);
         s4 = (if has_point then dropWhile is_digit (tl s3) else s3)
     in if ip = [] \<and> fp = [] then None
        else
          (let (e, s5) = take_exponent s4;
               m = real (digits_val ip) + real (digits_val fp) / 10 ^ length fp;
               v = scale10 m e
           in if dropWhile is_space s5 = [] then Some (if neg then - v else v) else None))"

definition lower_char :: "char \<Rightarrow> char" where
  "lower_char c =
    (if c = CHR ''I'' then CHR ''i'' else if c = CHR ''N'' then CHR ''n''
     else if c = CHR ''F'' then CHR ''f'' else if c = CHR ''T'' then CHR ''t''
     else if c = CHR ''Y'' then CHR ''y'' else c)"

definition parse_float :: "string \<Rightarrow> fval option" where
  "parse_float s =
    (case parse_decimal s of
       Some v \<Rightarrow> Some (Fin v)
     | None \<Rightarrow>
        (let w = map lower_char s in
         if w = ''inf'' \<or> w = ''+inf'' \<or> w = ''infinity'' \<or> w = ''+infinity'' then Some PInf
         else if w = ''-inf'' \<or> w = ''-infinity'' then Some NInf
         else None))"

text \<open>
  \<^verbatim>\<open>pd.to_numeric(values, errors=mode)\<close> on text cells. A cell that does not parse raises
  under \<^verbatim>\<open>errors='raise'\<close> and becomes NaN under \<^verbatim>\<open>errors='coerce'\<close>.
\<close>

definition to_numeric_cell :: "errors_mode \<Rightarrow> string \<Rightarrow> error + fval" where
  "to_numeric_cell mode s =
    (case parse_float s of
       Some v \<Rightarrow> Inr v
     | None \<Rightarrow> (case mode of Raise \<Rightarrow> Inl ValueError | Coerce \<Rightarrow> Inr NaN))"

fun collect :: "(error + 'a) list \<Rightarrow> error + 'a list" where
  "collect [] = Inr []"
| "collect (x # xs) =
    (case x of
       Inl e \<Rightarrow> Inl e
     | Inr v \<Rightarrow> (case collect xs of Inl e \<Rightarrow> Inl e | Inr vs \<Rightarrow> Inr (v # vs)))"

definition to_numeric :: "errors_mode \<Rightarrow> string list \<Rightarrow> error + fval list" where
  "to_numeric mode cells = collect (map (to_numeric_cell mode) cells)"

text \<open>
  One cell of lines 55 and 56: text of the cell, dots removed, commas turned into dots,
  parsed with \<^verbatim>\<open>errors='coerce'\<close>.
\<close>

definition clean_text :: "string option \<Rightarrow> string" where
  "clean_text c = str_replace CHR '','' ''.'' (str_replace CHR ''.'' '''' (astype_str c))"

text \<open>The list \<^verbatim>\<open>cols_to_fix\<close>.\<close>

definition cols_to_fix :: "string list" where
  "cols_to_fix = [''Quantity'', ''Price'', ''Local Value'', ''Value'', ''Total'']"

text \<open>
  \<^verbatim>\<open>df[col] = v\<close> for a label that names one column: that column is replaced in place.
\<close>

definition assign_column :: "string \<Rightarrow> 'd column \<Rightarrow> 'd table \<Rightarrow> 'd table" where
  "assign_column col v df = map (\<lambda>(l, c). if l = col then (l, v) else (l, c)) df"

definition labelled :: "string \<Rightarrow> 'd table \<Rightarrow> 'd column list" where
  "labelled col df = map snd (filter (\<lambda>(l, c). l = col) df)"

text \<open>
  The body of the loop over \<^verbatim>\<open>cols_to_fix\<close> (lines 53 to 56). When the label names
  several columns, \<^verbatim>\<open>df[col]\<close> is a table, which has no \<^verbatim>\<open>dtype\<close>: AttributeError.
\<close>

definition fix_col :: "string \<Rightarrow> 'd table \<Rightarrow> error + 'd table" where
  "fix_col col df =
    (case labelled col df of
       [] \<Rightarrow> Inr df
     | [c] \<Rightarrow>
        (case c of
           ObjCol cells \<Rightarrow>
             (case to_numeric Coerce (map clean_text cells) of
                Inl e \<Rightarrow> Inl e
              | Inr vs \<Rightarrow> Inr (assign_column col (NumCol vs) df))
         | _ \<Rightarrow> Inr df)
     | _ \<Rightarrow> Inl AttributeError)"

fun fix_cols :: "string list \<Rightarrow> 'd table \<Rightarrow> error + 'd table" where
  "fix_cols [] df = Inr df"
| "fix_cols (col # cols) df =
    (case fix_col col df of Inl e \<Rightarrow> Inl e | Inr df' \<Rightarrow> fix_cols cols df')"

definition normalize_numeric :: "'d table \<Rightarrow> error + 'd table" where
  "normalize_numeric df = fix_cols cols_to_fix df"

text \<open>
  Reference functions for the proofs: the value a text cell gets under
  \<^verbatim>\<open>errors='coerce'\<close>, what the loop body does to one column, and what it does to the
  columns whose label is in a set.
\<close>

definition coerce_val :: "string \<Rightarrow> fval" where
  "coerce_val s = (case parse_float s of Some v \<Rightarrow> v | None \<Rightarrow> NaN)"

fun normalized :: "'d column \<Rightarrow> 'd column" where
  "normalized (ObjCol cells) = NumCol (map (\<lambda>c. coerce_val (clean_text c)) cells)"
| "normalized c = c"

definition upd_cols :: "string set \<Rightarrow> string \<times> 'd column \<Rightarrow> string \<times> 'd column" where
  "upd_cols S = (\<lambda>(l, c). if l \<in> S then (l, normalized c) else (l, c))"

fun is_object :: "'d column \<Rightarrow> bool" where
  "is_object (ObjCol cells) = True"
| "is_object c = False"

section \<open>Holdings aggregation\<close>

text \<open>
  \<^verbatim>\<open>get_portfolio_snapshot\<close> reads three columns of the transaction table. A row is
  modelled by these three cells; the record is extensible, so a row may carry the other
  columns too. Product and ISIN are text or missing, Quantity is a finite number or
  missing.
\<close>

record txn =
  Product :: "string option"
  ISIN :: "string option"
  Quantity :: "real option"







section \<open>Performance metrics\<close>

text \<open>
  Arithmetic on numeric cells, as IEEE arithmetic defines it on infinities and NaN (the
  sign of zero is not modelled: a zero divisor counts as positive).
\<close>

fun fneg :: "fval \<Rightarrow> fval" where
  "fneg (Fin a) = Fin (- a)"
| "fneg PInf = NInf"
| "fneg NInf = PInf"
| "fneg NaN = NaN"

fun fadd :: "fval \<Rightarrow> fval \<Rightarrow> fval" where
  "fadd NaN y = NaN"
| "fadd x NaN = NaN"
| "fadd (Fin a) (Fin b) = Fin (a + b)"
| "fadd PInf NInf = NaN"
| "fadd NInf PInf = NaN"
| "fadd PInf y = PInf"
| "fadd x PInf = PInf"
| "fadd NInf y = NInf"
| "fadd x NInf = NInf"

definition fsub :: "fval \<Rightarrow> fval \<Rightarrow> fval" where
  "fsub x y = fadd x (fneg y)"

definition signed_inf :: "bool \<Rightarrow> fval" where
  "signed_inf positive = (if positive then PInf else NInf)"

fun fmul :: "fval \<Rightarrow> fval \<Rightarrow> fval" where
  "fmul NaN y = NaN"
| "fmul x NaN = NaN"
| "fmul (Fin a) (Fin b) = Fin (a * b)"
| "fmul (Fin a) PInf = (if a = 0 then NaN else signed_inf (0 < a))"
| "fmul (Fin a) NInf = (if a = 0 then NaN else signed_inf (a < 0))"
| "fmul PInf (Fin b) = (if b = 0 then NaN else signed_inf (0 < b))"
| "fmul NInf (Fin b) = (if b = 0 then NaN else signed_inf (b < 0))"
| "fmul PInf PInf = PInf"
| "fmul NInf NInf = PInf"
| "fmul PInf NInf = NInf"
| "fmul NInf PInf = NInf"

fun fdiv :: "fval \<Rightarrow> fval \<Rightarrow> fval" where
  "fdiv NaN y = NaN"
| "fdiv x NaN = NaN"
| "fdiv (Fin a) (Fin b) =
    (if b = 0 then (if a = 0 then NaN else signed_inf (0 < a)) else Fin (a / b))"
| "fdiv (Fin a) y = Fin 0"
| "fdiv PInf (Fin b) = signed_inf (0 \<le> b)"
| "fdiv NInf (Fin b) = signed_inf (b < 0)"
| "fdiv x y = NaN"

fun fle :: "fval \<Rightarrow> fval \<Rightarrow> bool" where
  "fle NaN y = False"
| "fle x NaN = False"
| "fle NInf y = True"
| "fle x PInf = True"
| "fle (Fin a) (Fin b) = (a \<le> b)"
| "fle x y = False"

definition fmax :: "fval \<Rightarrow> fval \<Rightarrow> fval" where
  "fmax x y = (if x = NaN \<or> y = NaN then NaN else if fle x y then y else x)"

definition fmin :: "fval \<Rightarrow> fval \<Rightarrow> fval" where
  "fmin x y = (if x = NaN \<or> y = NaN then NaN else if fle x y then x else y)"

text \<open>
  \<^verbatim>\<open>Series.pct_change()\<close>: each value divided by the value one position before, minus 1;
  the first position has no value before it and gives NaN. (pandas fills missing prices
  forward first in the releases that do so by default; a series of finite prices has
  none.)
\<close>

definition shift1 :: "fval list \<Rightarrow> fval list" where
  "shift1 xs = (case xs of [] \<Rightarrow> [] | x # r \<Rightarrow> NaN # butlast xs)"

definition pct_change :: "fval list \<Rightarrow> fval list" where
  "pct_change xs = map (\<lambda>(x, s). fsub (fdiv x s) (Fin 1)) (zip xs (shift1 xs))"

text \<open>\<^verbatim>\<open>Series.dropna()\<close>.\<close>

definition dropna :: "fval list \<Rightarrow> fval list" where
  "dropna xs = filter (\<lambda>v. v \<noteq> NaN) xs"

text \<open>
  \<^verbatim>\<open>Series.cumprod()\<close> and \<^verbatim>\<open>Series.cummax()\<close> skip missing values: a NaN position stays
  NaN and does not enter the running product or maximum.
\<close>

fun cumprod_from :: "fval \<Rightarrow> fval list \<Rightarrow> fval list" where
  "cumprod_from acc [] = []"
| "cumprod_from acc (x # xs) =
    (if x = NaN then NaN # cumprod_from acc xs
     else fmul acc x # cumprod_from (fmul acc x) xs)"

definition cumprod :: "fval list \<Rightarrow> fval list" where
  "cumprod xs = cumprod_from (Fin 1) xs"

fun cummax_from :: "fval \<Rightarrow> fval list \<Rightarrow> fval list" where
  "cummax_from acc [] = []"
| "cummax_from acc (x # xs) =
    (if x = NaN then NaN # cummax_from acc xs
     else fmax acc x # cummax_from (fmax acc x) xs)"

definition cummax :: "fval list \<Rightarrow> fval list" where
  "cummax xs = cummax_from NInf xs"

text \<open>\<^verbatim>\<open>Series.min()\<close>: the least value that is not NaN, and NaN when there is none.\<close>

definition series_min :: "fval list \<Rightarrow> fval" where
  "series_min xs = (case dropna xs of [] \<Rightarrow> NaN | v # vs \<Rightarrow> foldl fmin v vs)"

text \<open>
  \<^verbatim>\<open>calculate_metrics\<close>, line by line. The price series is a list of finite prices in
  date order.
\<close>

definition returns_of :: "real list \<Rightarrow> fval list" where
  "returns_of market_data = dropna (pct_change (map Fin market_data))"

definition cumulative_returns_of :: "real list \<Rightarrow> fval list" where
  "cumulative_returns_of market_data = cumprod (map (fadd (Fin 1)) (returns_of market_data))"

definition rolling_max_of :: "real list \<Rightarrow> fval list" where
  "rolling_max_of market_data = cummax (cumulative_returns_of market_data)"

definition drawdown_of :: "real list \<Rightarrow> fval list" where
  "drawdown_of market_data =
    map (\<lambda>(c, m). fsub (fdiv c m) (Fin 1))
      (zip (cumulative_returns_of market_data) (rolling_max_of market_data))"

definition calculate_metrics :: "real list \<Rightarrow> fval list \<times> fval" where
  "calculate_metrics market_data =
    (cumulative_returns_of market_data, series_min (drawdown_of market_data))"

text \<open>
  The metrics as the specification words them, on real numbers and by position in the
  price series: the period return at position \<open>i\<close>, the cumulative return as the running
  product of (1 + return), the running peak, the drawdown, and the max drawdown.
\<close>

definition spec_return :: "real list \<Rightarrow> nat \<Rightarrow> real" where
  "spec_return price i = price ! i / price ! (i - 1) - 1"

definition spec_cumulative :: "real list \<Rightarrow> nat \<Rightarrow> real" where
  "spec_cumulative price i = (\<Prod>j = 1..i. 1 + spec_return price j)"

definition spec_peak :: "real list \<Rightarrow> nat \<Rightarrow> real" where
  "spec_peak price i = Max (spec_cumulative price ` {1..i})"

definition spec_drawdown :: "real list \<Rightarrow> nat \<Rightarrow> real" where
  "spec_drawdown price i = spec_cumulative price i / spec_peak price i - 1"

definition spec_max_drawdown :: "real list \<Rightarrow> real" where
  "spec_max_drawdown price = Min (spec_drawdown price ` {1..<length price})"

text \<open>Reference functions for the proofs: the same series computed on reals.\<close>

fun real_returns :: "real list \<Rightarrow> real list" where
  "real_returns (p # q # r) = (q / p - 1) # real_returns (q # r)"
| "real_returns ps = []"

fun rcumprod :: "real \<Rightarrow> real list \<Rightarrow> real list" where
  "rcumprod a [] = []"
| "rcumprod a (x # xs) = (a * x) # rcumprod (a * x) xs"

fun rcummax :: "real \<Rightarrow> real list \<Rightarrow> real list" where
  "rcummax m [] = []"
| "rcummax m (x # xs) = max m x # rcummax (max m x) xs"

definition real_peaks :: "real list \<Rightarrow> real list" where
  "real_peaks cs = (case cs of [] \<Rightarrow> [] | c # r \<Rightarrow> c # rcummax c r)"

section \<open>Loading\<close>

text \<open>
  What \<^verbatim>\<open>load_and_clean_data\<close> takes from outside the program: the outcome of
  \<^verbatim>\<open>pd.read_csv\<close> on a path (a table, or the exception it raises), the date pandas reads
  from a text cell (given the \<^verbatim>\<open>dayfirst\<close> flag; \<open>None\<close> when the text is no date), and
  the date of a number taken as nanoseconds since the epoch (\<open>None\<close> when out of bounds).
\<close>

record 'd pandas =
  read_csv :: "string \<Rightarrow> error + 'd table"
  parse_date :: "bool \<Rightarrow> string \<Rightarrow> 'd option"
  epoch_date :: "real \<Rightarrow> 'd option"

text \<open>
  \<^verbatim>\<open>pd.to_datetime(column, dayfirst=..., errors=mode)\<close>. A missing cell is a missing date.
  A cell that is no date raises under \<^verbatim>\<open>errors='raise'\<close>, which is the default, and is
  a missing date under \<^verbatim>\<open>errors='coerce'\<close>.
\<close>

definition to_datetime_text :: "'d pandas \<Rightarrow> bool \<Rightarrow> errors_mode \<Rightarrow> string option \<Rightarrow> error + 'd option" where
  "to_datetime_text env dayfirst mode c =
    (case c of
       None \<Rightarrow> Inr None
     | Some s \<Rightarrow>
        (case parse_date env dayfirst s of
           Some d \<Rightarrow> Inr (Some d)
         | None \<Rightarrow> (case mode of Raise \<Rightarrow> Inl DateParseError | Coerce \<Rightarrow> Inr None)))"

definition to_datetime_number :: "'d pandas \<Rightarrow> errors_mode \<Rightarrow> fval \<Rightarrow> error + 'd option" where
  "to_datetime_number env mode v =
    (case v of
       NaN \<Rightarrow> Inr None
     | Fin x \<Rightarrow>
        (case epoch_date env x of
           Some d \<Rightarrow> Inr (Some d)
         | None \<Rightarrow> (case mode of Raise \<Rightarrow> Inl OutOfBoundsDatetime | Coerce \<Rightarrow> Inr None))
     | _ \<Rightarrow> (case mode of Raise \<Rightarrow> Inl OutOfBoundsDatetime | Coerce \<Rightarrow> Inr None))"

definition to_datetime :: "'d pandas \<Rightarrow> bool \<Rightarrow> errors_mode \<Rightarrow> 'd column \<Rightarrow> error + 'd column" where
  "to_datetime env dayfirst mode c =
    (case c of
       ObjCol cells \<Rightarrow>
         (case collect (map (to_datetime_text env dayfirst mode) cells) of
            Inl e \<Rightarrow> Inl e
          | Inr ds \<Rightarrow> Inr (DateCol ds))
     | NumCol vs \<Rightarrow>
         (case collect (map (to_datetime_number env mode) vs) of
            Inl e \<Rightarrow> Inl e
          | Inr ds \<Rightarrow> Inr (DateCol ds))
     | BoolCol bs \<Rightarrow> Inl TypeError
     | DateCol ds \<Rightarrow> Inr (DateCol ds))"

text \<open>
  Lines 59 and 60. The call passes \<^verbatim>\<open>dayfirst=True\<close> and no \<^verbatim>\<open>errors\<close> argument. When
  the label names several columns, \<^verbatim>\<open>df['Date']\<close> is a table, which \<^verbatim>\<open>to_datetime\<close>
  cannot assemble into dates: ValueError.
\<close>

definition parse_dates :: "'d pandas \<Rightarrow> 'd table \<Rightarrow> error + 'd table" where
  "parse_dates env df =
    (case labelled ''Date'' df of
       [] \<Rightarrow> Inr df
     | [c] \<Rightarrow>
        (case to_datetime env True Raise c of
           Inl e \<Rightarrow> Inl e
         | Inr c' \<Rightarrow> Inr (assign_column ''Date'' c' df))
     | _ \<Rightarrow> Inl ValueError)"

text \<open>
  \<^verbatim>\<open>load_and_clean_data\<close>: the messages it prints and what it returns or raises. Only
  \<^verbatim>\<open>FileNotFoundError\<close> is caught.
\<close>

definition file_not_found_message :: "string \<Rightarrow> string" where
  "file_not_found_message filepath =
    [CHR 0xE2, CHR 0x9D, CHR 0x8C] @ '' Error: File not found at '' @ filepath
      @ ''. Please check the path.''"

definition load_and_clean_data :: "'d pandas \<Rightarrow> string \<Rightarrow> string list \<times> (error + 'd table option)" where
  "load_and_clean_data env filepath =
    (case read_csv env filepath of
       Inl e \<Rightarrow>
         if e = FileNotFoundError then ([file_not_found_message filepath], Inr None)
         else ([], Inl e)
     | Inr df0 \<Rightarrow>
         ([],
          (case normalize_numeric (rename_columns column_map df0) of
             Inl e \<Rightarrow> Inl e
           | Inr df1 \<Rightarrow>
              (case parse_dates env df1 of
                 Inl e \<Rightarrow> Inl e
               | Inr df2 \<Rightarrow> Inr (Some df2)))))"

text \<open>
  \<^verbatim>\<open>main\<close> up to line 112, with the stages after it (holdings, market data, metrics,
  chart) as one function of the loaded table.
\<close>

definition INPUT_FILE :: string where
  "INPUT_FILE = ''data/Transactions.csv''"

definition starting_message :: string where
  "starting_message = [CHR 0xF0, CHR 0x9F, CHR 0x9A, CHR 0x80] @ '' Starting Portfolio Analytics...''"

datatype 'r outcome = Raised error | Returned_early | Continued 'r

definition main :: "'d pandas \<Rightarrow> ('d table \<Rightarrow> 'r) \<Rightarrow> string list \<times> 'r outcome" where
  "main env later_stages =
    (let (printed, r) = load_and_clean_data env INPUT_FILE in
     (starting_message # printed,
      (case r of
         Inl e \<Rightarrow> Raised e
       | Inr None \<Rightarrow> Returned_early
       | Inr (Some df) \<Rightarrow> Continued (later_stages df))))"

text \<open>
  A sample environment for concrete runs: the dates of three cell texts, and a file
  system given as a function.
\<close>

definition sample_dates :: "bool \<Rightarrow> string \<Rightarrow> (nat \<times> nat \<times> nat) option" where
  "sample_dates dayfirst s =
    (if s = ''15-03-2023'' then Some (2023, 3, 15)
     else if s = ''03-04-2023'' then (if dayfirst then Some (2023, 4, 3) else Some (2023, 3, 4))
     else None)"

definition sample_env :: "(string \<Rightarrow> error + (nat \<times> nat \<times> nat) table) \<Rightarrow> (nat \<times> nat \<times> nat) pandas" where
  "sample_env files = \<lparr>read_csv = files, parse_date = sample_dates, epoch_date = (\<lambda>x. None)\<rparr>"

definition sample_good :: "(nat \<times> nat \<times> nat) table" where
  "sample_good =
    [(''Datum'', ObjCol [Some ''15-03-2023'', None, Some ''03-04-2023'']),
     (''Aantal'', ObjCol [Some ''1,5'', Some ''x'', None])]"

definition sample_bad :: "(nat \<times> nat \<times> nat) table" where
  "sample_bad =
    [(''Datum'', ObjCol [Some ''15-03-2023'', Some ''not a date'']),
     (''Aantal'', ObjCol [Some ''1,5'', Some ''x''])]"

text \<open>Reference functions for the proofs about date parsing.\<close>

definition date_cell_parses :: "'d pandas \<Rightarrow> string option \<Rightarrow> bool" where
  "date_cell_parses env c = (case c of None \<Rightarrow> True | Some s \<Rightarrow> parse_date env True s \<noteq> None)"

definition date_of_cell :: "'d pandas \<Rightarrow> string option \<Rightarrow> 'd option" where
  "date_of_cell env c = (case c of None \<Rightarrow> None | Some s \<Rightarrow> parse_date env True s)"

section \<open>Facts about numeric normalization\<close>

lemmas parse_defs = to_numeric_cell_def clean_text_def str_replace_def astype_str_def
  parse_float_def parse_decimal_def take_sign_def take_exponent_def is_digit_def is_space_def
  digits_val_def digit_val_def scale10_def lower_char_def

lemma to_numeric_cell_Coerce: "to_numeric_cell Coerce s = Inr (coerce_val s)"
  by (simp add: to_numeric_cell_def coerce_val_def split: option.splits)

lemma collect_Inr: "collect (map Inr xs) = Inr xs"
  by (induction xs) simp_all

lemma to_numeric_Coerce: "to_numeric Coerce ss = Inr (map coerce_val ss)"
proof -
  have "map (to_numeric_cell Coerce) ss = map Inr (map coerce_val ss)"
    by (simp add: to_numeric_cell_Coerce)
  then show ?thesis
    unfolding to_numeric_def by (simp only: collect_Inr)
qed

lemma normalized_idem: "normalized (normalized c) = normalized c"
  by (cases c) simp_all

lemma assign_column_single:
  "labelled col df = [c] \<Longrightarrow> assign_column col (normalized c) df = map (upd_cols {col}) df"
proof (induction df arbitrary: c)
  case Nil
  then show ?case by (simp add: labelled_def)
next
  case (Cons a df)
  obtain l x where a: "a = (l, x)" by (cases a)
  show ?case
  proof (cases "l = col")
    case True
    with Cons.prems a have x: "x = c" and rest: "labelled col df = []"
      by (simp_all add: labelled_def)
    from rest have "\<forall>(l', y) \<in> set df. l' \<noteq> col"
      by (auto simp: labelled_def filter_empty_conv)
    then have "assign_column col (normalized c) df = df" "map (upd_cols {col}) df = df"
      by (auto simp: assign_column_def upd_cols_def intro!: map_idI)
    with True a x show ?thesis
      by (simp add: assign_column_def upd_cols_def)
  next
    case False
    with Cons.prems a have "labelled col df = [c]"
      by (simp add: labelled_def)
    from Cons.IH[OF this] False a show ?thesis
      by (simp add: assign_column_def upd_cols_def)
  qed
qed

lemma upd_cols_absent:
  "labelled col df = [] \<Longrightarrow> map (upd_cols {col}) df = df"
  by (auto simp: labelled_def filter_empty_conv upd_cols_def intro!: map_idI)

lemma fix_col_eq:
  "fix_col col df =
     (if length (labelled col df) \<le> 1 then Inr (map (upd_cols {col}) df) else Inl AttributeError)"
proof (cases "labelled col df")
  case Nil
  then show ?thesis by (simp add: fix_col_def upd_cols_absent)
next
  case (Cons c cs)
  show ?thesis
  proof (cases cs)
    case Nil
    with Cons have one: "labelled col df = [c]" by simp
    have "assign_column col (normalized c) df = map (upd_cols {col}) df"
      by (rule assign_column_single[OF one])
    moreover have "map (upd_cols {col}) df = df" if "normalized c = c"
    proof (rule map_idI)
      fix a assume a: "a \<in> set df"
      obtain l x where lx: "a = (l, x)" by (cases a)
      show "upd_cols {col} a = a"
      proof (cases "l = col")
        case True
        with a lx have "x \<in> set (labelled col df)"
          by (force simp: labelled_def)
        with one that True lx show ?thesis by (simp add: upd_cols_def)
      next
        case False
        with lx show ?thesis by (simp add: upd_cols_def)
      qed
    qed
    ultimately show ?thesis using one
      by (cases c) (simp_all add: fix_col_def to_numeric_Coerce comp_def)
  next
    case (Cons c' cs')
    with \<open>labelled col df = c # cs\<close> show ?thesis by (simp add: fix_col_def)
  qed
qed

lemma labelled_upd:
  "labelled col (map (upd_cols S) df) =
     map (\<lambda>c. if col \<in> S then normalized c else c) (labelled col df)"
  by (induction df) (auto simp: labelled_def upd_cols_def split: if_splits)

lemma upd_cols_twice:
  "map (upd_cols T) (map (upd_cols {col}) df) = map (upd_cols (insert col T)) df"
  by (auto simp: upd_cols_def normalized_idem)

lemma fix_cols_eq:
  "fix_cols cols df =
     (if list_all (\<lambda>col. length (labelled col df) \<le> 1) cols
      then Inr (map (upd_cols (set cols)) df) else Inl AttributeError)"
proof (induction cols arbitrary: df)
  case Nil
  have "map (upd_cols {}) df = df"
    by (auto simp: upd_cols_def intro!: map_idI)
  then show ?case by simp
next
  case (Cons col cols)
  have len: "length (labelled c (map (upd_cols {col}) df)) = length (labelled c df)" for c
    by (simp add: labelled_upd)
  show ?case
  proof (cases "length (labelled col df) \<le> 1")
    case True
    then have "fix_cols (col # cols) df = fix_cols cols (map (upd_cols {col}) df)"
      by (simp add: fix_col_eq)
    also have "\<dots> = (if list_all (\<lambda>c. length (labelled c df) \<le> 1) cols
        then Inr (map (upd_cols (set cols)) (map (upd_cols {col}) df)) else Inl AttributeError)"
      by (simp only: Cons.IH len)
    finally show ?thesis using True
      by (simp add: upd_cols_twice del: map_map)
  next
    case False
    then show ?thesis by (simp add: fix_col_eq)
  qed
qed

lemma normalize_numeric_eq:
  "normalize_numeric df =
     (if list_all (\<lambda>col. length (labelled col df) \<le> 1) cols_to_fix
      then Inr (map (upd_cols (set cols_to_fix)) df) else Inl AttributeError)"
  by (simp only: normalize_numeric_def fix_cols_eq)

lemma str_replace_delete: "str_replace old [] s = filter (\<lambda>c. c \<noteq> old) s"
  by (induction s) (simp_all add: str_replace_def)

lemma str_replace_char: "str_replace old [new] s = map (\<lambda>c. if c = old then new else c) s"
  by (induction s) (simp_all add: str_replace_def)

lemma clean_text_Some:
  "clean_text (Some s) =
     map (\<lambda>c. if c = CHR '','' then CHR ''.'' else c) (filter (\<lambda>c. c \<noteq> CHR ''.'') s)"
  by (simp add: clean_text_def astype_str_def str_replace_delete str_replace_char)



lemma distinct_column_map: "distinct (map fst column_map)"
  by (simp add: column_map_def)

lemma relabel_known: "(l, l') \<in> set column_map \<Longrightarrow> relabel column_map l = l'"
  using map_of_is_SomeI[OF distinct_column_map] by (simp add: relabel_def)

lemma relabel_unknown: "l \<notin> fst ` set column_map \<Longrightarrow> relabel column_map l = l"
  by (simp add: relabel_def map_of_eq_None_iff[THEN iffD2])

lemma list_of_length1: "length xs = Suc 0 \<Longrightarrow> xs = [xs ! 0]"
  by (cases xs) simp_all

lemma list_of_length2: "length xs = Suc (Suc 0) \<Longrightarrow> xs = [xs ! 0, xs ! Suc 0]"
  by (cases xs) (simp_all add: list_of_length1)

lemma list_of_length3:
  "length xs = Suc (Suc (Suc 0)) \<Longrightarrow> xs = [xs ! 0, xs ! Suc 0, xs ! Suc (Suc 0)]"
  by (cases xs) (simp_all add: list_of_length2)

lemmas table_defs = normalize_numeric_eq cols_to_fix_def labelled_def upd_cols_def coerce_val_def

text \<open>
  Claim C9. Column-name standardization is a pure relabeling: the renamed table has as
  many columns as the raw one, every column keeps its position and its cells, a column
  whose label is a key of the locale mapping gets the canonical name the mapping gives
  it, and a column whose label is not a key keeps its label.
\<close>

theorem rename_is_pure_relabeling:
  "length (rename_columns column_map df) = length df \<and>
   map snd (rename_columns column_map df) = map snd df \<and>
   (\<forall>i l c l'. i < length df \<and> df ! i = (l, c) \<and> (l, l') \<in> set column_map \<longrightarrow>
      rename_columns column_map df ! i = (l', c)) \<and>
   (\<forall>i l c. i < length df \<and> df ! i = (l, c) \<and> l \<notin> fst ` set column_map \<longrightarrow>
      rename_columns column_map df ! i = (l, c))"
proof -
  have "map snd (rename_columns column_map df) = map snd df"
    by (induction df) (auto simp: rename_columns_def)
  then show ?thesis
    by (simp add: rename_columns_def relabel_known relabel_unknown)
qed

theorem rename_is_pure_relabeling_witness:
  "rename_columns column_map
     [(''Datum'', ObjCol [Some ''15-03-2023'']), (''Aantal'', NumCol [Fin 10]),
      (''Beurs'', (ObjCol [Some ''XET''] :: unit column))]
   = [(''Date'', ObjCol [Some ''15-03-2023'']), (''Quantity'', NumCol [Fin 10]),
      (''Beurs'', ObjCol [Some ''XET''])]"
proof -
  let ?df = "[(''Datum'', ObjCol [Some ''15-03-2023'']), (''Aantal'', NumCol [Fin 10]),
      (''Beurs'', (ObjCol [Some ''XET''] :: unit column))]"
  let ?r = "rename_columns column_map ?df"
  note th = rename_is_pure_relabeling[of ?df]
  from th have len: "length ?r = Suc (Suc (Suc 0))" by simp
  from th have known: "\<And>i l c l'. i < length ?df \<Longrightarrow> ?df ! i = (l, c) \<Longrightarrow>
      (l, l') \<in> set column_map \<Longrightarrow> ?r ! i = (l', c)"
    by blast
  from th have unknown: "\<And>i l c. i < length ?df \<Longrightarrow> ?df ! i = (l, c) \<Longrightarrow>
      l \<notin> fst ` set column_map \<Longrightarrow> ?r ! i = (l, c)"
    by blast
  have r0: "?r ! 0 = (''Date'', ObjCol [Some ''15-03-2023''])"
    by (rule known[of 0 "''Datum''"]) (simp_all add: column_map_def)
  have r1: "?r ! Suc 0 = (''Quantity'', NumCol [Fin 10])"
    by (rule known[of "Suc 0" "''Aantal''"]) (simp_all add: column_map_def)
  have r2: "?r ! Suc (Suc 0) = (''Beurs'', ObjCol [Some ''XET''])"
    by (rule unknown[of "Suc (Suc 0)"]) (simp_all add: column_map_def)
  have "?r = [?r ! 0, ?r ! Suc 0, ?r ! Suc (Suc 0)]"
    by (rule list_of_length3[OF len])
  with r0 r1 r2 show ?thesis by simp
qed



text \<open>
  Claim C8. Normalization leaves a column that is not textual as it is, cell by cell,
  and a second normalization of an already normalized table returns that table.
\<close>

theorem normalization_idempotent:
  "(normalize_numeric df = Inr df' \<and> i < length df \<and> \<not> is_object (snd (df ! i))
      \<longrightarrow> df' ! i = df ! i) \<and>
   (normalize_numeric df = Inr df' \<longrightarrow> normalize_numeric df' = Inr df')"
proof (intro conjI impI)
  assume a: "normalize_numeric df = Inr df' \<and> i < length df \<and> \<not> is_object (snd (df ! i))"
  then have df': "df' = map (upd_cols (set cols_to_fix)) df"
    by (simp add: normalize_numeric_eq split: if_splits)
  from a have "normalized (snd (df ! i)) = snd (df ! i)"
    by (cases "snd (df ! i)") simp_all
  then have "upd_cols (set cols_to_fix) (df ! i) = df ! i"
    by (cases "df ! i") (simp add: upd_cols_def)
  with a df' show "df' ! i = df ! i" by simp
next
  assume a: "normalize_numeric df = Inr df'"
  then have once: "list_all (\<lambda>l. length (labelled l df) \<le> 1) cols_to_fix"
    and df': "df' = map (upd_cols (set cols_to_fix)) df"
    by (simp_all add: normalize_numeric_eq split: if_splits)
  have twice: "map (upd_cols (set cols_to_fix)) df' = df'"
    unfolding df' by (auto simp: upd_cols_def normalized_idem)
  have "list_all (\<lambda>l. length (labelled l df') \<le> 1) cols_to_fix"
    using once unfolding df' by (simp add: labelled_upd)
  then show "normalize_numeric df' = Inr df'"
    by (simp add: normalize_numeric_eq twice)
qed

theorem normalization_idempotent_witness:
  "normalize_numeric
     [(''Quantity'', NumCol [Fin 1000, NaN]), (''Price'', (ObjCol [Some ''12,5'', None] :: unit column))]
   = Inr [(''Quantity'', NumCol [Fin 1000, NaN]), (''Price'', NumCol [Fin 12.5, NaN])] \<and>
   normalize_numeric
     [(''Quantity'', NumCol [Fin 1000, NaN]), (''Price'', (NumCol [Fin 12.5, NaN] :: unit column))]
   = Inr [(''Quantity'', NumCol [Fin 1000, NaN]), (''Price'', NumCol [Fin 12.5, NaN])]"
proof -
  let ?df = "[(''Quantity'', NumCol [Fin 1000, NaN]),
      (''Price'', (ObjCol [Some ''12,5'', None] :: unit column))]"
  let ?df' = "[(''Quantity'', NumCol [Fin 1000, NaN]),
      (''Price'', (NumCol [Fin 12.5, NaN] :: unit column))]"
  have first: "normalize_numeric ?df = Inr ?df'"
    by (simp add: table_defs parse_defs)
  from normalization_idempotent[of ?df ?df' 0] first
  have "?df' ! 0 = ?df ! 0" and "normalize_numeric ?df' = Inr ?df'"
    by simp_all
  with first show ?thesis by simp
qed

text \<open>
  Claim C10. In a textual column every dot of a cell is removed, wherever it stands,
  before the commas are turned into dots: the cleaned text of a cell is the cell without
  its dots and with a dot for each comma. The cell \<^verbatim>\<open>10.5\<close> becomes the number 105, which
  is not 10.5.
\<close>

theorem every_dot_is_removed:
  "clean_text (Some s)
     = map (\<lambda>c. if c = CHR '','' then CHR ''.'' else c) (filter (\<lambda>c. c \<noteq> CHR ''.'') s) \<and>
   normalize_numeric [(''Price'', (ObjCol [Some ''10.5''] :: 'd column))]
     = Inr [(''Price'', NumCol [Fin 105])] \<and>
   Fin 105 \<noteq> Fin 10.5"
proof -
  have "normalize_numeric [(''Price'', (ObjCol [Some ''10.5''] :: 'd column))]
     = Inr [(''Price'', NumCol [Fin 105])]"
    by (simp add: table_defs parse_defs)
  then show ?thesis by (simp add: clean_text_Some)
qed

theorem every_dot_is_removed_witness:
  "clean_text (Some ''1.000.000,5'') = ''1000000.5'' \<and>
   normalize_numeric [(''Price'', (ObjCol [Some ''10.5''] :: unit column))]
     = Inr [(''Price'', NumCol [Fin 105])]"
  using every_dot_is_removed[of "''1.000.000,5''", where ?'d = unit] by simp

section \<open>Facts about holdings aggregation\<close>




















section \<open>Facts about performance metrics\<close>

lemmas metric_defs = calculate_metrics_def drawdown_of_def rolling_max_of_def
  cumulative_returns_of_def returns_of_def series_min_def cummax_def cumprod_def dropna_def
  pct_change_def shift1_def fmin_def fmax_def fsub_def signed_inf_def

subsection \<open>From values to reals\<close>

lemma pct_change_Fin:
  "0 \<notin> set (p # rest) \<Longrightarrow>
   map (\<lambda>(x, s). fsub (fdiv x s) (Fin 1)) (zip (map Fin rest) (butlast (map Fin (p # rest))))
     = map Fin (real_returns (p # rest))"
proof (induction rest arbitrary: p)
  case Nil
  then show ?case by simp
next
  case (Cons q r)
  from Cons.prems have "0 \<notin> set (q # r)" and "p \<noteq> 0" by auto
  with Cons.IH[of q] show ?case by (simp add: fsub_def)
qed

lemma returns_of_Fin:
  assumes "0 \<notin> set ps"
  shows "returns_of ps = map Fin (real_returns ps)"
proof (cases ps)
  case Nil
  then show ?thesis by (simp add: returns_of_def pct_change_def shift1_def dropna_def)
next
  case (Cons p rest)
  have "pct_change (map Fin (p # rest)) =
      NaN # map (\<lambda>(x, s). fsub (fdiv x s) (Fin 1)) (zip (map Fin rest) (butlast (map Fin (p # rest))))"
    by (simp add: pct_change_def shift1_def fsub_def)
  also have "\<dots> = NaN # map Fin (real_returns (p # rest))"
    using pct_change_Fin[of p rest] assms Cons by simp
  finally show ?thesis
    using Cons by (simp add: returns_of_def dropna_def filter_map comp_def)
qed

lemma cumprod_from_Fin: "cumprod_from (Fin a) (map Fin xs) = map Fin (rcumprod a xs)"
  by (induction xs arbitrary: a) simp_all

lemma cummax_from_Fin: "cummax_from (Fin m) (map Fin xs) = map Fin (rcummax m xs)"
  by (induction xs arbitrary: m) (simp_all add: fmax_def max_def)

lemma cummax_Fin: "cummax (map Fin cs) = map Fin (real_peaks cs)"
  by (cases cs) (simp_all add: cummax_def real_peaks_def fmax_def cummax_from_Fin)

lemma rcumprod_returns:
  "0 \<notin> set (p # rest) \<Longrightarrow>
   rcumprod a (map (\<lambda>r. 1 + r) (real_returns (p # rest))) = map (\<lambda>q. a * q / p) rest"
proof (induction rest arbitrary: p a)
  case Nil
  then show ?case by simp
next
  case (Cons q r)
  from Cons.prems have nz: "0 \<notin> set (q # r)" "p \<noteq> 0" "q \<noteq> 0" by auto
  have "rcumprod (a * (q / p)) (map (\<lambda>r. 1 + r) (real_returns (q # r)))
      = map (\<lambda>x. a * (q / p) * x / q) r"
    by (rule Cons.IH[OF nz(1)])
  also have "\<dots> = map (\<lambda>x. a * x / p) r"
    using nz by simp
  finally show ?case by simp
qed

lemma cumulative_Fin:
  assumes "0 \<notin> set (p # rest)"
  shows "cumulative_returns_of (p # rest) = map (\<lambda>q. Fin (q / p)) rest"
proof -
  have "map (fadd (Fin 1)) (map Fin (real_returns (p # rest)))
      = map Fin (map (\<lambda>r. 1 + r) (real_returns (p # rest)))"
    by simp
  then have "cumulative_returns_of (p # rest)
      = map Fin (rcumprod 1 (map (\<lambda>r. 1 + r) (real_returns (p # rest))))"
    unfolding cumulative_returns_of_def cumprod_def returns_of_Fin[OF assms]
    by (simp only: cumprod_from_Fin)
  then show ?thesis
    by (simp add: rcumprod_returns[OF assms] comp_def)
qed


subsection \<open>The lists by position\<close>

lemma length_real_returns: "length (real_returns ps) = length ps - 1"
  by (induction ps rule: real_returns.induct) simp_all

lemma real_returns_nth:
  "Suc k < length ps \<Longrightarrow> real_returns ps ! k = ps ! Suc k / ps ! k - 1"
proof (induction ps arbitrary: k rule: real_returns.induct)
  case (1 p q r)
  then show ?case by (cases k) simp_all
qed simp_all

lemma map_upt_Suc_eq:
  assumes "length xs = n - 1" and "\<And>k. Suc k < n \<Longrightarrow> xs ! k = f (Suc k)"
  shows "xs = map f [1..<n]"
  using assms by (auto simp: list_eq_iff_nth_eq)

lemma returns_by_position:
  assumes "0 \<notin> set ps"
  shows "returns_of ps = map (\<lambda>i. Fin (spec_return ps i)) [1..<length ps]"
proof -
  have "real_returns ps = map (spec_return ps) [1..<length ps]"
    by (rule map_upt_Suc_eq) (simp_all add: length_real_returns real_returns_nth spec_return_def)
  then show ?thesis
    by (simp add: returns_of_Fin[OF assms] comp_def)
qed

lemma spec_cumulative_quotient:
  assumes "0 \<notin> set ps"
  shows "i < length ps \<Longrightarrow> spec_cumulative ps i = ps ! i / ps ! 0"
proof (induction i)
  case 0
  then have "ps ! 0 \<noteq> 0" using assms nth_mem[of 0 ps] by metis
  then show ?case by (simp add: spec_cumulative_def)
next
  case (Suc i)
  then have IH: "spec_cumulative ps i = ps ! i / ps ! 0" by simp
  from Suc.prems have "ps ! i \<noteq> 0" using assms nth_mem[of i ps] by (metis Suc_lessD)
  moreover have "spec_cumulative ps (Suc i) = spec_cumulative ps i * (1 + spec_return ps (Suc i))"
    by (simp add: spec_cumulative_def)
  ultimately show ?case
    by (simp add: IH spec_return_def)
qed

lemma cumulative_by_position:
  assumes "0 \<notin> set ps"
  shows "cumulative_returns_of ps = map (\<lambda>i. Fin (spec_cumulative ps i)) [1..<length ps]"
proof (cases ps)
  case Nil
  then show ?thesis
    by (simp add: cumulative_returns_of_def returns_of_def pct_change_def shift1_def dropna_def
        cumprod_def)
next
  case (Cons p rest)
  have "map (\<lambda>q. q / p) rest = map (spec_cumulative ps) [1..<length ps]"
  proof (rule map_upt_Suc_eq)
    show "length (map (\<lambda>q. q / p) rest) = length ps - 1"
      using Cons by simp
  next
    fix k assume k: "Suc k < length ps"
    have "spec_cumulative ps (Suc k) = ps ! Suc k / ps ! 0"
      by (rule spec_cumulative_quotient[OF assms k])
    with k Cons show "map (\<lambda>q. q / p) rest ! k = spec_cumulative ps (Suc k)"
      by simp
  qed
  then have "map Fin (map (\<lambda>q. q / p) rest) = map Fin (map (spec_cumulative ps) [1..<length ps])"
    by (rule arg_cong)
  then have "map (\<lambda>q. Fin (q / p)) rest = map (\<lambda>i. Fin (spec_cumulative ps i)) [1..<length ps]"
    by (simp only: map_map comp_def)
  with cumulative_Fin[of p rest] assms Cons show ?thesis by simp
qed

lemma rcummax_nth:
  "k < length xs \<Longrightarrow> rcummax m xs ! k = Max (insert m (set (take (Suc k) xs)))"
proof (induction xs arbitrary: m k)
  case Nil
  then show ?case by simp
next
  case (Cons x xs)
  show ?case
  proof (cases k)
    case 0
    then show ?thesis by (simp add: max.commute)
  next
    case (Suc j)
    with Cons.prems have "j < length xs" by simp
    then have "rcummax (max m x) xs ! j = Max (insert (max m x) (set (take (Suc j) xs)))"
      by (rule Cons.IH)
    also have "\<dots> = Max (insert m (insert x (set (take (Suc j) xs))))"
    proof -
      have ne: "set (take (Suc j) xs) \<noteq> {}"
        using \<open>j < length xs\<close> by (cases xs) simp_all
      have fin: "finite (set (take (Suc j) xs))" by simp
      show ?thesis
        by (simp only: Max_insert[OF fin ne] Max_insert[OF finite.insertI[OF fin] insert_not_empty]
            max.assoc)
    qed
    finally show ?thesis using Suc by simp
  qed
qed

lemma real_peaks_nth:
  "k < length cs \<Longrightarrow> real_peaks cs ! k = Max (set (take (Suc k) cs))"
proof (cases cs)
  case Nil
  assume "k < length cs"
  with Nil show ?thesis by simp
next
  case (Cons c r)
  assume k: "k < length cs"
  show ?thesis
  proof (cases k)
    case 0
    with Cons show ?thesis by (simp add: real_peaks_def)
  next
    case (Suc j)
    with k Cons have "j < length r" by simp
    from rcummax_nth[OF this, of c] Suc Cons show ?thesis
      by (simp add: real_peaks_def)
  qed
qed

lemma length_real_peaks: "length (real_peaks cs) = length cs"
proof -
  have "length (rcummax m xs) = length xs" for m xs
    by (induction xs arbitrary: m) simp_all
  then show ?thesis by (cases cs) (simp_all add: real_peaks_def)
qed

lemma peaks_by_position:
  "real_peaks (map (spec_cumulative ps) [1..<length ps]) = map (spec_peak ps) [1..<length ps]"
proof (rule map_upt_Suc_eq)
  show "length (real_peaks (map (spec_cumulative ps) [1..<length ps])) = length ps - 1"
    by (simp add: length_real_peaks)
next
  fix k assume k: "Suc k < length ps"
  let ?cs = "map (spec_cumulative ps) [1..<length ps]"
  from k have "k < length ?cs" by simp
  then have "real_peaks ?cs ! k = Max (set (take (Suc k) ?cs))"
    by (rule real_peaks_nth)
  also have "take (Suc k) ?cs = map (spec_cumulative ps) [1..<Suc (Suc k)]"
    using k by (simp add: take_map)
  also have "set \<dots> = spec_cumulative ps ` {1..Suc k}"
    by (simp only: set_map set_upt atLeastLessThanSuc_atLeastAtMost)
  finally show "real_peaks ?cs ! k = spec_peak ps (Suc k)"
    by (simp add: spec_peak_def)
qed

lemma rolling_max_by_position:
  assumes "0 \<notin> set ps"
  shows "rolling_max_of ps = map (\<lambda>i. Fin (spec_peak ps i)) [1..<length ps]"
proof -
  have "cumulative_returns_of ps = map Fin (map (spec_cumulative ps) [1..<length ps])"
    by (simp add: cumulative_by_position[OF assms] comp_def)
  then have "rolling_max_of ps = map Fin (real_peaks (map (spec_cumulative ps) [1..<length ps]))"
    by (simp only: rolling_max_of_def cummax_Fin)
  then show ?thesis
    by (simp only: peaks_by_position map_map comp_def)
qed

lemma spec_peak_in:
  "1 \<le> i \<Longrightarrow> spec_peak ps i \<in> spec_cumulative ps ` {1..i}"
  unfolding spec_peak_def by (rule Max_in) simp_all

lemma spec_peak_nonzero:
  assumes "0 \<notin> set ps" "1 \<le> i" "i < length ps"
  shows "spec_peak ps i \<noteq> 0"
proof -
  from spec_peak_in[OF assms(2), of ps] obtain j where j: "j \<in> {1..i}"
    and eq: "spec_peak ps i = spec_cumulative ps j" by blast
  from j assms(3) have jl: "j < length ps" by simp
  then have "0 < length ps" by auto
  with assms(1) jl have "ps ! j \<noteq> 0" "ps ! 0 \<noteq> 0"
    using nth_mem[of j ps] nth_mem[of 0 ps] by metis+
  then show ?thesis
    by (simp add: eq spec_cumulative_quotient[OF assms(1) jl])
qed

lemma drawdown_by_position:
  assumes "0 \<notin> set ps"
  shows "drawdown_of ps = map (\<lambda>i. Fin (spec_drawdown ps i)) [1..<length ps]"
proof -
  have "fsub (fdiv (Fin (spec_cumulative ps i)) (Fin (spec_peak ps i))) (Fin 1)
      = Fin (spec_drawdown ps i)" if "i \<in> set [1..<length ps]" for i
    using that spec_peak_nonzero[OF assms, of i]
    by (simp add: fsub_def spec_drawdown_def)
  then show ?thesis
    unfolding drawdown_of_def cumulative_by_position[OF assms] rolling_max_by_position[OF assms]
    by (simp add: zip_map_map zip_same_conv_map)
qed

lemma foldl_fmin_Fin: "foldl fmin (Fin v) (map Fin vs) = Fin (foldl min v vs)"
  by (induction vs arbitrary: v) (simp_all add: fmin_def min_def)

lemma series_min_Fin: "xs \<noteq> [] \<Longrightarrow> series_min (map Fin xs) = Fin (Min (set xs))"
proof (cases xs)
  case Nil
  assume "xs \<noteq> []"
  with Nil show ?thesis by simp
next
  case (Cons v vs)
  have "dropna (map Fin xs) = map Fin xs"
    by (simp add: dropna_def filter_map comp_def)
  then have "series_min (map Fin xs) = Fin (foldl min v vs)"
    using Cons by (simp add: series_min_def foldl_fmin_Fin)
  also have "foldl min v vs = fold min vs v"
    by (simp add: foldl_conv_fold min.commute)
  also have "\<dots> = Min (set xs)"
    unfolding Cons by (simp only: Min.set_eq_fold)
  finally show ?thesis .
qed

lemma max_drawdown_by_position:
  assumes "0 \<notin> set ps" "2 \<le> length ps"
  shows "snd (calculate_metrics ps) = Fin (spec_max_drawdown ps)"
proof -
  let ?ds = "map (spec_drawdown ps) [1..<length ps]"
  from assms(2) have "1 < length ps" by simp
  then have ne: "?ds \<noteq> []" by auto
  have "drawdown_of ps = map Fin ?ds"
    by (simp add: drawdown_by_position[OF assms(1)] comp_def)
  then have "snd (calculate_metrics ps) = Fin (Min (set ?ds))"
    using series_min_Fin[OF ne] by (simp add: calculate_metrics_def)
  then show ?thesis by (simp add: spec_max_drawdown_def)
qed


subsection \<open>Positive prices\<close>









text \<open>
  Claim C4, as the specification states it, at the three-point series 0, 0, 5: the
  return at position 1 is 0/0 - 1, which is NaN, and \<^verbatim>\<open>dropna\<close> removes it together
  with the first position, so the return series and the cumulative series have one entry
  and not one entry for each position from 1 on.
\<close>

theorem metrics_zero_price_counterexample:
  "2 \<le> length [0, 0, 5 :: real] \<and> returns_of [0, 0, 5] = [PInf] \<and>
   calculate_metrics [0, 0, 5] = ([PInf], NaN) \<and>
   length (fst (calculate_metrics [0, 0, 5])) \<noteq> length [0, 0, 5 :: real] - 1"
  by (simp add: metric_defs)

text \<open>
  Claim C4, amended. For a price series with at least two points and no zero price, the
  return series is price[i] / price[i-1] - 1 for the positions i from 1 on, the
  cumulative return series is the running product of (1 + return) at these positions,
  and the max drawdown is the minimum over these positions of cumulative[i] divided by
  the running maximum of the cumulative returns up to i, minus 1. Prices 100, 120, 90,
  130 give the cumulative returns 1.2, 0.9, 1.3 and the max drawdown -0.25.
\<close>

theorem performance_metrics:
  assumes "2 \<le> length price" and "0 \<notin> set price"
  shows "returns_of price = map (\<lambda>i. Fin (spec_return price i)) [1..<length price] \<and>
    fst (calculate_metrics price)
      = map (\<lambda>i. Fin (spec_cumulative price i)) [1..<length price] \<and>
    snd (calculate_metrics price) = Fin (spec_max_drawdown price) \<and>
    calculate_metrics [100, 120, 90, 130] = ([Fin 1.2, Fin 0.9, Fin 1.3], Fin (- 0.25))"
proof -
  have "calculate_metrics [100, 120, 90, 130] = ([Fin 1.2, Fin 0.9, Fin 1.3], Fin (- 0.25))"
    by (simp add: metric_defs)
  moreover have "fst (calculate_metrics price)
      = map (\<lambda>i. Fin (spec_cumulative price i)) [1..<length price]"
    using cumulative_by_position[OF assms(2)] by (simp add: calculate_metrics_def)
  ultimately show ?thesis
    using returns_by_position[OF assms(2)] max_drawdown_by_position[OF assms(2) assms(1)]
    by blast
qed

theorem performance_metrics_witness:
  "spec_max_drawdown [100, 110, 99, 121] = - (1 / 10) \<and>
   map (spec_cumulative [100, 110, 99, 121]) [1, 2, 3] = [11 / 10, 99 / 100, 121 / 100]"
proof -
  let ?ps = "[100, 110, 99, 121 :: real]"
  have len: "2 \<le> length ?ps" by simp
  have nz: "0 \<notin> set ?ps" by simp
  have code: "calculate_metrics ?ps = ([Fin (11 / 10), Fin (99 / 100), Fin (121 / 100)], Fin (- (1 / 10)))"
    by (simp add: metric_defs)
  have upt: "[1..<length ?ps] = [1, 2, 3]"
    by (simp add: upt_rec)
  from performance_metrics[OF len nz]
  have "fst (calculate_metrics ?ps) = map (\<lambda>i. Fin (spec_cumulative ?ps i)) [1..<length ?ps]"
    and "snd (calculate_metrics ?ps) = Fin (spec_max_drawdown ?ps)"
    by blast+
  then show ?thesis
    unfolding code upt by simp
qed




section \<open>Facts about loading\<close>

lemmas load_defs = load_and_clean_data_def parse_dates_def to_datetime_def to_datetime_text_def
  to_datetime_number_def rename_columns_def relabel_def column_map_def assign_column_def
  sample_env_def sample_dates_def

lemma collect_if:
  "collect (map (\<lambda>c. if P c then Inr (g c) else Inl e) cs)
     = (if list_all P cs then Inr (map g cs) else Inl e)"
  by (induction cs) simp_all

lemma to_datetime_text_Raise:
  "to_datetime_text env True Raise c
     = (if date_cell_parses env c then Inr (date_of_cell env c) else Inl DateParseError)"
  by (cases c) (auto simp: to_datetime_text_def date_cell_parses_def date_of_cell_def
      split: option.splits)

lemma to_datetime_text_column:
  "to_datetime env True Raise (ObjCol cells)
     = (if list_all (date_cell_parses env) cells then Inr (DateCol (map (date_of_cell env) cells))
        else Inl DateParseError)"
proof -
  have "to_datetime_text env True Raise
      = (\<lambda>c. if date_cell_parses env c then Inr (date_of_cell env c) else Inl DateParseError)"
    by (rule ext) (rule to_datetime_text_Raise)
  then have "collect (map (to_datetime_text env True Raise) cells)
      = (if list_all (date_cell_parses env) cells then Inr (map (date_of_cell env) cells)
         else Inl DateParseError)"
    by (simp only: collect_if)
  then show ?thesis
    by (simp add: to_datetime_def)
qed

lemma labelled_assign:
  "labelled col (assign_column col v df) = map (\<lambda>c. v) (labelled col df)"
  by (induction df) (auto simp: labelled_def assign_column_def split: if_splits)

lemma parse_dates_text:
  assumes "labelled ''Date'' df = [ObjCol cells]"
  shows "parse_dates env df
     = (if list_all (date_cell_parses env) cells
        then Inr (assign_column ''Date'' (DateCol (map (date_of_cell env) cells)) df)
        else Inl DateParseError)"
  by (simp add: parse_dates_def assms to_datetime_text_column)

text \<open>
  Claim C2, as the specification states it, at a table whose Date column holds the cell
  \<^verbatim>\<open>not a date\<close>: the load does not return a table with a missing date in that row, it
  raises.
\<close>

theorem bad_date_aborts_load_counterexample:
  "load_and_clean_data (sample_env (\<lambda>p. Inr sample_bad)) ''data/Transactions.csv''
     = ([], Inl DateParseError)"
  by (simp add: load_defs sample_bad_def normalize_numeric_def fix_col_def cols_to_fix_def
      labelled_def to_numeric_def parse_defs)

text \<open>
  Claim C2, amended. Take a file that reads as a table whose Date column, after renaming
  and numeric normalization, is one column of text. When every cell of it that is present
  is a date for the day-first parser, the load returns a table whose Date column holds
  the parsed date of each present cell and a missing date for each missing cell. When
  some present cell is no date, the load raises and returns no table: a malformed date
  is not turned into a missing date.
\<close>

theorem date_parsing:
  assumes read: "read_csv env filepath = Inr raw"
    and norm: "normalize_numeric (rename_columns column_map raw) = Inr df"
    and date: "labelled ''Date'' df = [ObjCol cells]"
  shows "(list_all (date_cell_parses env) cells \<longrightarrow>
      (\<exists>df'. load_and_clean_data env filepath = ([], Inr (Some df')) \<and>
         labelled ''Date'' df' =
           [DateCol (map (\<lambda>c. case c of None \<Rightarrow> None | Some s \<Rightarrow> parse_date env True s) cells)])) \<and>
    (\<not> list_all (date_cell_parses env) cells \<longrightarrow>
      load_and_clean_data env filepath = ([], Inl DateParseError))"
proof (intro conjI impI)
  assume ok: "list_all (date_cell_parses env) cells"
  let ?df' = "assign_column ''Date'' (DateCol (map (date_of_cell env) cells)) df"
  have "load_and_clean_data env filepath = ([], Inr (Some ?df'))"
    by (simp add: load_and_clean_data_def read norm parse_dates_text[OF date] ok)
  moreover have "labelled ''Date'' ?df' = [DateCol (map (date_of_cell env) cells)]"
    by (simp add: labelled_assign date)
  moreover have "date_of_cell env = (\<lambda>c. case c of None \<Rightarrow> None | Some s \<Rightarrow> parse_date env True s)"
    by (rule ext) (simp add: date_of_cell_def)
  ultimately show "\<exists>df'. load_and_clean_data env filepath = ([], Inr (Some df')) \<and>
         labelled ''Date'' df' =
           [DateCol (map (\<lambda>c. case c of None \<Rightarrow> None | Some s \<Rightarrow> parse_date env True s) cells)]"
    by auto
next
  assume bad: "\<not> list_all (date_cell_parses env) cells"
  show "load_and_clean_data env filepath = ([], Inl DateParseError)"
    by (simp add: load_and_clean_data_def read norm parse_dates_text[OF date] bad)
qed

theorem date_parsing_witness:
  "\<exists>df'. load_and_clean_data (sample_env (\<lambda>p. Inr sample_good)) ''data/Transactions.csv''
       = ([], Inr (Some df')) \<and>
     labelled ''Date'' df' = [DateCol [Some (2023, 3, 15), None, Some (2023, 4, 3)]]"
proof -
  let ?env = "sample_env (\<lambda>p. Inr sample_good)"
  let ?df = "[(''Date'', ObjCol [Some ''15-03-2023'', None, Some ''03-04-2023'']),
     (''Quantity'', (NumCol [Fin (3 / 2), NaN, NaN] :: (nat \<times> nat \<times> nat) column))]"
  have read: "read_csv ?env ''data/Transactions.csv'' = Inr sample_good"
    by (simp add: sample_env_def)
  have norm: "normalize_numeric (rename_columns column_map sample_good) = Inr ?df"
    by (simp add: sample_good_def rename_columns_def relabel_def column_map_def
        normalize_numeric_def fix_col_def cols_to_fix_def labelled_def to_numeric_def
        assign_column_def parse_defs)
  have date: "labelled ''Date'' ?df = [ObjCol [Some ''15-03-2023'', None, Some ''03-04-2023'']]"
    by (simp add: labelled_def)
  have ok: "list_all (date_cell_parses ?env) [Some ''15-03-2023'', None, Some ''03-04-2023'']"
    by (simp add: date_cell_parses_def sample_env_def sample_dates_def)
  from date_parsing[OF read norm date] ok show ?thesis
    by (simp add: sample_env_def sample_dates_def)
qed

text \<open>
  Claim C6, as the specification states it, at a path that exists but cannot be read:
  \<^verbatim>\<open>read_csv\<close> raises \<^verbatim>\<open>PermissionError\<close>, which is not caught, so the load prints no
  diagnostic and raises, and \<^verbatim>\<open>main\<close> raises with it.
\<close>

theorem unreadable_file_counterexample:
  "load_and_clean_data (sample_env (\<lambda>p. Inl PermissionError)) ''data/Transactions.csv''
     = ([], Inl PermissionError) \<and>
   main (sample_env (\<lambda>p. Inl PermissionError)) (\<lambda>df. length df)
     = ([starting_message], Raised PermissionError)"
  by (simp add: load_and_clean_data_def main_def sample_env_def)

text \<open>
  Claim C6, amended. For every file path at which the read fails with
  \<^verbatim>\<open>FileNotFoundError\<close>, the loader prints the diagnostic naming the path, returns no
  table and does not raise; \<^verbatim>\<open>main\<close>, whose input file is such a path, prints its
  start line and the diagnostic and returns without running a later stage.
\<close>

theorem file_not_found_is_reported:
  assumes "read_csv env filepath = Inl FileNotFoundError"
  shows "load_and_clean_data env filepath = ([file_not_found_message filepath], Inr None) \<and>
    (filepath = INPUT_FILE \<longrightarrow>
       main env later_stages
         = ([starting_message, file_not_found_message INPUT_FILE], Returned_early))"
proof -
  have load: "load_and_clean_data env filepath = ([file_not_found_message filepath], Inr None)"
    using assms by (simp add: load_and_clean_data_def)
  then have "main env later_stages
      = ([starting_message, file_not_found_message INPUT_FILE], Returned_early)"
    if "filepath = INPUT_FILE"
    using that by (simp add: main_def)
  with load show ?thesis by blast
qed

theorem file_not_found_is_reported_witness:
  "main (sample_env (\<lambda>p. Inl FileNotFoundError)) (\<lambda>df. length df)
     = ([starting_message, file_not_found_message ''data/Transactions.csv''], Returned_early)"
proof -
  have "read_csv (sample_env (\<lambda>p. Inl FileNotFoundError)) INPUT_FILE = Inl FileNotFoundError"
    by (simp add: sample_env_def)
  from file_not_found_is_reported[OF this, of "\<lambda>df. length df"] show ?thesis
    by (simp add: INPUT_FILE_def)
qed

end
